theory Spec2Isabelle
  imports Main "HOL-Library.Sublist" "HOL-Library.AList"
begin

section \<open>The filesystem seen by the scaffolding tool\<close>

text \<open>
  The tool calls five operations of the Node.js \<open>fs\<close> module and \<open>path.join\<close>.
  The filesystem is a tree: a regular file carries its bytes, a directory an association
  list from entry names to nodes, read as a map (the first binding of a name is the entry).
  A path is the list of names from the root, so source and destination are two paths of
  one filesystem and may overlap. The errors are those that follow from the shape of the
  tree (a missing entry, a file where a directory is needed, a directory where a file is
  needed); symbolic links, other entry kinds, permissions and full disks are not part of
  the model.
\<close>

type_synonym path = "string list"
type_synonym bytes = "char list"

datatype node = File bytes | Dir "(string \<times> node) list"

datatype error = ENOENT | ENOTDIR | EEXIST | EISDIR

datatype stats = Stats (isDirectory: bool)

text \<open>What can be observed at a path: nothing, a directory, or a file and its bytes.\<close>

datatype kind = KFile bytes | KDir

fun kind_of :: "node \<Rightarrow> kind" where
  "kind_of (File b) = KFile b"
| "kind_of (Dir es) = KDir"

text \<open>Path resolution from the root, with the error codes of the system calls.\<close>

fun walk :: "node \<Rightarrow> path \<Rightarrow> error + node" where
  "walk n [] = Inr n"
| "walk (File b) (x # p) = Inl ENOTDIR"
| "walk (Dir es) (x # p) =
     (case map_of es x of None \<Rightarrow> Inl ENOENT | Some c \<Rightarrow> walk c p)"

definition kind_at :: "node \<Rightarrow> path \<Rightarrow> kind option" where
  "kind_at fs p = (case walk fs p of Inl e \<Rightarrow> None | Inr n \<Rightarrow> Some (kind_of n))"

text \<open>\<open>fs.existsSync(p)\<close>: true when \<open>p\<close> resolves, false on any error.\<close>

definition existsSync :: "node \<Rightarrow> path \<Rightarrow> bool" where
  "existsSync fs p = (case walk fs p of Inl e \<Rightarrow> False | Inr n \<Rightarrow> True)"

text \<open>
  \<open>fs.mkdirSync(p, { recursive: true })\<close>: creates \<open>p\<close> and every missing ancestor,
  accepts directories that exist, and fails where a regular file is in the way.
\<close>

fun mkdirSync :: "node \<Rightarrow> path \<Rightarrow> error + node" where
  "mkdirSync (File b) [] = Inl EEXIST"
| "mkdirSync (Dir es) [] = Inr (Dir es)"
| "mkdirSync (File b) (x # p) = Inl ENOTDIR"
| "mkdirSync (Dir es) (x # p) =
     (case (case map_of es x of None \<Rightarrow> mkdirSync (Dir []) p | Some c \<Rightarrow> mkdirSync c p) of
        Inl e \<Rightarrow> Inl e
      | Inr c' \<Rightarrow> Inr (Dir (AList.update x c' es)))"

text \<open>
  \<open>fs.readdirSync(p)\<close>: the names of the entries of directory \<open>p\<close>, each once. The order
  is platform-defined: it is a parameter, a ranking of the names of each directory;
  the names are returned by increasing rank.
\<close>

type_synonym order = "path \<Rightarrow> string \<Rightarrow> nat"

definition readdirSync :: "order \<Rightarrow> node \<Rightarrow> path \<Rightarrow> error + string list" where
  "readdirSync ord fs p =
     (case walk fs p of
        Inl e \<Rightarrow> Inl e
      | Inr (File b) \<Rightarrow> Inl ENOTDIR
      | Inr (Dir es) \<Rightarrow> Inr (sort_key (ord p) (remdups (map fst es))))"

text \<open>\<open>fs.statSync(p)\<close>, of which the tool reads \<open>isDirectory()\<close> only.\<close>

definition statSync :: "node \<Rightarrow> path \<Rightarrow> error + stats" where
  "statSync fs p =
     (case walk fs p of
        Inl e \<Rightarrow> Inl e
      | Inr (File b) \<Rightarrow> Inr (Stats False)
      | Inr (Dir es) \<Rightarrow> Inr (Stats True))"

text \<open>
  Writing a regular file at a path: the parent must be a directory, the file is created
  or its content replaced, and a directory at the path is an error.
\<close>

fun writeFile :: "node \<Rightarrow> path \<Rightarrow> bytes \<Rightarrow> error + node" where
  "writeFile (File old) [] b = Inr (File b)"
| "writeFile (Dir es) [] b = Inl EISDIR"
| "writeFile (File old) (x # p) b = Inl ENOTDIR"
| "writeFile (Dir es) (x # p) b =
     (case map_of es x of
        None \<Rightarrow> if p = [] then Inr (Dir (AList.update x (File b) es)) else Inl ENOENT
      | Some c \<Rightarrow>
          (case writeFile c p b of
             Inl e \<Rightarrow> Inl e
           | Inr c' \<Rightarrow> Inr (Dir (AList.update x c' es))))"

text \<open>\<open>fs.copyFileSync(src, dest)\<close>: reads all of \<open>src\<close> and writes it at \<open>dest\<close>.\<close>

definition copyFileSync :: "node \<Rightarrow> path \<Rightarrow> path \<Rightarrow> error + node" where
  "copyFileSync fs src dest =
     (case walk fs src of
        Inl e \<Rightarrow> Inl e
      | Inr (Dir es) \<Rightarrow> Inl EISDIR
      | Inr (File b) \<Rightarrow> writeFile fs dest b)"

text \<open>\<open>path.join(dir, name)\<close> for an entry name.\<close>

definition path_join :: "path \<Rightarrow> string \<Rightarrow> path" where
  "path_join dir name = dir @ [name]"

section \<open>The program: index.js\<close>

text \<open>
  An exception is the result \<open>Inl e\<close> with the filesystem as it was when it was thrown.
  A \<open>for\<close> loop whose body may throw stops at the first exception.
\<close>

type_synonym 'a outcome = "((error + 'a) \<times> node) option"

fun forEach :: "('a \<Rightarrow> node \<Rightarrow> unit outcome) \<Rightarrow> 'a list \<Rightarrow> node \<Rightarrow> unit outcome" where
  "forEach body [] fs = Some (Inr (), fs)"
| "forEach body (x # xs) fs =
     (case body x fs of
        None \<Rightarrow> None
      | Some (Inl e, fs') \<Rightarrow> Some (Inl e, fs')
      | Some (Inr u, fs') \<Rightarrow> forEach body xs fs')"

text \<open>
  \<open>copyRecursive(src, dest)\<close>. The first argument is the enumeration order of
  \<open>readdirSync\<close>; the second bounds the depth of the recursion (in Node.js, the call
  stack does), and \<open>None\<close> is the run that needs a deeper recursion than the bound.
\<close>

fun copyRecursive :: "order \<Rightarrow> nat \<Rightarrow> path \<Rightarrow> path \<Rightarrow> node \<Rightarrow> unit outcome" where
  "copyRecursive ord 0 src dest fs = None"
| "copyRecursive ord (Suc n) src dest fs =
     (case (if \<not> existsSync fs dest then mkdirSync fs dest else Inr fs) of
        Inl e \<Rightarrow> Some (Inl e, fs)
      | Inr fs1 \<Rightarrow>
          (case readdirSync ord fs1 src of
             Inl e \<Rightarrow> Some (Inl e, fs1)
           | Inr files \<Rightarrow>
               forEach (\<lambda>file fs2.
                  let srcFile = path_join src file;
                      destFile = path_join dest file
                  in case statSync fs2 srcFile of
                       Inl e \<Rightarrow> Some (Inl e, fs2)
                     | Inr stat \<Rightarrow>
                         if isDirectory stat then copyRecursive ord n srcFile destFile fs2
                         else (case copyFileSync fs2 srcFile destFile of
                                 Inl e \<Rightarrow> Some (Inl e, fs2)
                               | Inr fs3 \<Rightarrow> Some (Inr (), fs3)))
                 files fs1))"

text \<open>
  Two fragments of \<open>copyRecursive\<close> under names of their own: the first statement, which
  makes sure the destination exists, and the body of the loop for one entry (with
  recursion bound \<open>n\<close> for a sub-directory).
\<close>

definition ensureDir :: "node \<Rightarrow> path \<Rightarrow> error + node" where
  "ensureDir fs dest = (if \<not> existsSync fs dest then mkdirSync fs dest else Inr fs)"

definition copyEntry :: "order \<Rightarrow> nat \<Rightarrow> path \<Rightarrow> path \<Rightarrow> string \<Rightarrow> node \<Rightarrow> unit outcome" where
  "copyEntry ord n src dest file fs2 =
     (let srcFile = path_join src file;
          destFile = path_join dest file
      in case statSync fs2 srcFile of
           Inl e \<Rightarrow> Some (Inl e, fs2)
         | Inr stat \<Rightarrow>
             if isDirectory stat then copyRecursive ord n srcFile destFile fs2
             else (case copyFileSync fs2 srcFile destFile of
                     Inl e \<Rightarrow> Some (Inl e, fs2)
                   | Inr fs3 \<Rightarrow> Some (Inr (), fs3)))"

subsection \<open>The entry point\<close>

text \<open>
  \<open>process.argv[2] || "."\<close>: an index out of range is \<open>undefined\<close>, and \<open>undefined\<close> and
  the empty string are both falsy.
\<close>

definition targetDir :: "string list \<Rightarrow> string" where
  "targetDir argv = (if 2 < length argv \<and> argv ! 2 \<noteq> [] then argv ! 2 else ''.'')"

text \<open>
  The \<open>fs\<close> calls resolve a path string against the working directory of the process
  (POSIX rules, no symbolic links).
\<close>

fun segments :: "string \<Rightarrow> string list" where
  "segments [] = [[]]"
| "segments (c # cs) =
     (if c = CHR ''/'' then [] # segments cs
      else (case segments cs of [] \<Rightarrow> [[c]] | s # ss \<Rightarrow> (c # s) # ss))"

definition enter :: "path \<Rightarrow> string \<Rightarrow> path" where
  "enter p seg =
     (if seg = [] \<or> seg = ''.'' then p
      else if seg = ''..'' then butlast p
      else p @ [seg])"

definition resolve :: "path \<Rightarrow> string \<Rightarrow> path" where
  "resolve cwd s =
     foldl enter (case s of [] \<Rightarrow> cwd | c # cs \<Rightarrow> if c = CHR ''/'' then [] else cwd)
       (segments s)"

definition success_message :: string where
  "success_message = [CHR 0xE2, CHR 0x9C, CHR 0x85] @ '' Project created successfully!''"

text \<open>
  The immediately invoked function: \<open>dirname\<close> is \<open>__dirname\<close>, \<open>cwd\<close> the working
  directory, \<open>argv\<close> is \<open>process.argv\<close>. The result on success is the line printed.
\<close>

definition entry_point ::
    "order \<Rightarrow> nat \<Rightarrow> path \<Rightarrow> path \<Rightarrow> string list \<Rightarrow> node \<Rightarrow> string outcome" where
  "entry_point ord n dirname cwd argv fs =
     (let templateDir = path_join dirname ''template''
      in case copyRecursive ord n templateDir (resolve cwd (targetDir argv)) fs of
           None \<Rightarrow> None
         | Some (Inl e, fs') \<Rightarrow> Some (Inl e, fs')
         | Some (Inr u, fs') \<Rightarrow> Some (Inr success_message, fs'))"

section \<open>Observations of a filesystem\<close>

text \<open>
  Two filesystems are compared by what every path shows (\<open>kind_at\<close>), which does not
  depend on the order in which a directory stores its entries.
\<close>

type_synonym view = "path \<Rightarrow> kind option"

text \<open>Nothing is removed and nothing changes between file and directory.\<close>

definition grows :: "view \<Rightarrow> view \<Rightarrow> bool" where
  "grows K K' \<longleftrightarrow>
     (\<forall>q. (K q = Some KDir \<longrightarrow> K' q = Some KDir) \<and>
          (\<forall>b. K q = Some (KFile b) \<longrightarrow> (\<exists>b'. K' q = Some (KFile b'))))"

text \<open>Outside \<open>d\<close> the only change is the creation of missing ancestors of \<open>d\<close>.\<close>

definition touches_only :: "path \<Rightarrow> view \<Rightarrow> view \<Rightarrow> bool" where
  "touches_only d K K' \<longleftrightarrow>
     (\<forall>q. \<not> prefix d q \<longrightarrow>
          K' q = K q \<or> (strict_prefix q d \<and> K q = None \<and> K' q = Some KDir))"






section \<open>Example filesystems and enumeration orders\<close>

definition any_order :: order where
  "any_order p x = 0"



definition notes_first :: order where
  "notes_first p x = (if x = ''notes'' then 0 else 1)"

text \<open>The installed package with its template, and an empty home directory.\<close>

definition demo_fs :: node where
  "demo_fs =
     Dir [(''pkg'', Dir [(''template'',
             Dir [(''.vscode'', Dir [(''settings.json'', File ''{}'')]),
                  (''notes'', File ''hi'')])]),
          (''home'', Dir [])]"

definition abc_after :: node where
  "abc_after =
     Dir [(''pkg'', Dir [(''template'',
             Dir [(''.vscode'', Dir [(''settings.json'', File ''{}'')]),
                  (''notes'', File ''hi'')])]),
          (''home'', Dir [(''a'', Dir [(''b'', Dir [(''c'',
             Dir [(''.vscode'', Dir [(''settings.json'', File ''{}'')]),
                  (''notes'', File ''hi'')])])])])]"


text \<open>A destination where a regular file \<open>src\<close> stands in the way of the directory \<open>src\<close>.\<close>

definition clash_fs :: node where
  "clash_fs =
     Dir [(''pkg'', Dir [(''template'',
             Dir [(''notes'', File ''hi''),
                  (''src'', Dir [(''main.py'', File ''run'')])])]),
          (''home'', Dir [(''src'', File ''old'')])]"

definition clash_after :: node where
  "clash_after =
     Dir [(''pkg'', Dir [(''template'',
             Dir [(''notes'', File ''hi''),
                  (''src'', Dir [(''main.py'', File ''run'')])])]),
          (''home'', Dir [(''src'', File ''old''), (''notes'', File ''hi'')])]"

text \<open>A destination path below a regular file.\<close>

definition blocked_fs :: node where
  "blocked_fs =
     Dir [(''pkg'', Dir [(''template'', Dir [(''notes'', File ''hi'')])]),
          (''home'', Dir [(''a'', File ''x'')])]"

text \<open>A package directory without its template.\<close>

definition bare_fs :: node where
  "bare_fs = Dir [(''pkg'', Dir []), (''home'', Dir [])]"







section \<open>Paths and what they show\<close>

text \<open>
  What \<open>existsSync\<close>, \<open>statSync\<close> and \<open>readdirSync\<close> return, in terms of \<open>kind_at\<close>.
\<close>

lemma kind_at_Nil [simp]: "kind_at n [] = Some (kind_of n)"
  by (simp add: kind_at_def)

lemma kind_at_File_Cons [simp]: "kind_at (File b) (x # p) = None"
  by (simp add: kind_at_def)

lemma kind_at_Dir_Cons [simp]:
  "kind_at (Dir es) (x # p) = (case map_of es x of None \<Rightarrow> None | Some c \<Rightarrow> kind_at c p)"
  by (simp add: kind_at_def split: option.splits)


lemma walk_append:
  "walk fs (p @ q) = (case walk fs p of Inl e \<Rightarrow> Inl e | Inr n \<Rightarrow> walk n q)"
  by (induction fs p rule: walk.induct) (simp_all split: option.splits)

lemma kind_at_append:
  "kind_at fs (p @ q) = (case walk fs p of Inl e \<Rightarrow> None | Inr n \<Rightarrow> kind_at n q)"
  by (simp add: kind_at_def walk_append split: sum.splits)

lemma kind_at_parent:
  "kind_at fs (p @ x # q) \<noteq> None \<Longrightarrow> kind_at fs p = Some KDir"
proof (induction fs p rule: walk.induct)
  case (1 n)
  then show ?case by (cases n) simp_all
qed (auto split: option.splits)

lemma kind_at_prefix:
  assumes "kind_at fs p \<noteq> None" "strict_prefix q p"
  shows "kind_at fs q = Some KDir"
proof -
  from assms(2) obtain x r where "p = q @ x # r"
    by (auto simp: strict_prefix_def prefix_def) (metis list.exhaust append_Nil2)
  with assms(1) show ?thesis
    using kind_at_parent by blast
qed

lemma existsSync_kind: "existsSync fs p \<longleftrightarrow> kind_at fs p \<noteq> None"
  by (simp add: existsSync_def kind_at_def split: sum.splits)

lemma statSync_Inr:
  "statSync fs p = Inr st \<Longrightarrow> kind_at fs p \<noteq> None \<and> (isDirectory st \<longleftrightarrow> kind_at fs p = Some KDir)"
  by (auto simp: statSync_def kind_at_def split: sum.splits node.splits)



lemma kind_at_child:
  "walk fs p = Inr (Dir es) \<Longrightarrow> kind_at fs (p @ [x]) \<noteq> None \<longleftrightarrow> x \<in> fst ` set es"
  by (auto simp: kind_at_append map_of_eq_None_iff split: option.splits dest: map_of_SomeD intro: rev_image_eqI)

lemma readdirSync_Inr:
  assumes "readdirSync ord fs p = Inr xs"
  shows "kind_at fs p = Some KDir" and "distinct xs"
    and "set xs = {x. kind_at fs (p @ [x]) \<noteq> None}"
proof -
  from assms obtain es where w: "walk fs p = Inr (Dir es)"
    and xs: "xs = sort_key (ord p) (remdups (map fst es))"
    by (auto simp: readdirSync_def split: sum.splits node.splits)
  from w show "kind_at fs p = Some KDir" by (simp add: kind_at_def)
  from xs show "distinct xs" by simp
  from xs kind_at_child [OF w] show "set xs = {x. kind_at fs (p @ [x]) \<noteq> None}"
    by auto
qed



section \<open>The filesystem calls\<close>

text \<open>
  What \<open>mkdirSync\<close> and \<open>copyFileSync\<close> change, and when they fail.
\<close>

lemma map_of_update [simp]: "map_of (AList.update k v al) = (map_of al)(k \<mapsto> v)"
  by (rule AList.update_conv')

lemma kind_at_empty_dir: "kind_at (Dir []) q = (if q = [] then Some KDir else None)"
  by (cases q) simp_all

lemma mkdirSync_kind:
  "mkdirSync fs p = Inr fs' \<Longrightarrow> kind_at fs' q = (if prefix q p then Some KDir else kind_at fs q)"
proof (induction fs p arbitrary: fs' q rule: mkdirSync.induct)
  case (4 es x p)
  show ?case
  proof (cases "map_of es x")
    case None
    with "4.prems" obtain c' where c': "mkdirSync (Dir []) p = Inr c'"
      and fs': "fs' = Dir (AList.update x c' es)"
      by (auto split: sum.splits)
    from "4.IH"(1) [OF None c'] have "\<And>r. kind_at c' r = (if prefix r p then Some KDir else None)"
      by (simp add: kind_at_empty_dir)
    with None fs' show ?thesis
      by (cases q) (auto split: option.splits)
  next
    case (Some c)
    with "4.prems" obtain c' where c': "mkdirSync c p = Inr c'"
      and fs': "fs' = Dir (AList.update x c' es)"
      by (auto split: sum.splits)
    from "4.IH"(2) [OF Some c'] have "\<And>r. kind_at c' r = (if prefix r p then Some KDir else kind_at c r)" .
    with Some fs' show ?thesis
      by (cases q) (auto split: option.splits)
  qed
qed auto

lemma mkdirSync_Inl:
  "mkdirSync fs p = Inl e \<Longrightarrow> \<exists>q b. prefix q p \<and> kind_at fs q = Some (KFile b)"
proof (induction fs p arbitrary: e rule: mkdirSync.induct)
  case (1 b)
  then show ?case by (auto intro: exI [of _ "[]"])
next
  case (3 b x p)
  then show ?case by (auto intro: exI [of _ "[]"])
next
  case (4 es x p)
  show ?case
  proof (cases "map_of es x")
    case None
    with "4.prems" have "mkdirSync (Dir []) p = Inl e"
      by (auto split: sum.splits)
    from "4.IH"(1) [OF None this] show ?thesis
      by (auto simp: kind_at_empty_dir split: if_splits)
  next
    case (Some c)
    with "4.prems" have "mkdirSync c p = Inl e"
      by (auto split: sum.splits)
    from "4.IH"(2) [OF Some this] obtain q b where "prefix q p" "kind_at c q = Some (KFile b)"
      by blast
    with Some have "prefix (x # q) (x # p) \<and> kind_at (Dir es) (x # q) = Some (KFile b)"
      by simp
    then show ?thesis by blast
  qed
qed auto

lemma mkdirSync_Inr_no_file:
  "mkdirSync fs p = Inr fs' \<Longrightarrow> prefix q p \<Longrightarrow> kind_at fs q \<noteq> Some (KFile b)"
proof (induction fs p arbitrary: fs' q rule: mkdirSync.induct)
  case (4 es x p)
  show ?case
  proof (cases q)
    case Nil
    then show ?thesis by simp
  next
    case (Cons y r)
    with "4.prems" have y: "y = x" and r: "prefix r p" by auto
    show ?thesis
    proof (cases "map_of es x")
      case None
      with Cons y show ?thesis by simp
    next
      case (Some c)
      with "4.prems" obtain c' where "mkdirSync c p = Inr c'"
        by (auto split: sum.splits)
      from "4.IH"(2) [OF Some this r] Some Cons y show ?thesis by simp
    qed
  qed
qed auto

lemma mkdirSync_error: "mkdirSync fs p = Inl e \<Longrightarrow> e = ENOTDIR \<or> e = EEXIST"
  by (induction fs p arbitrary: e rule: mkdirSync.induct) (auto split: option.splits sum.splits)

lemma writeFile_kind:
  "writeFile fs p b = Inr fs' \<Longrightarrow> kind_at fs' q = (if q = p then Some (KFile b) else kind_at fs q)"
proof (induction fs p b arbitrary: fs' q rule: writeFile.induct)
  case (4 es x p b)
  show ?case
  proof (cases "map_of es x")
    case None
    with "4.prems" have "p = []" and "fs' = Dir (AList.update x (File b) es)"
      by (auto split: if_splits)
    with None show ?thesis
      by (cases q) (auto split: option.splits, (case_tac list; simp)+)
  next
    case (Some c)
    with "4.prems" obtain c' where c': "writeFile c p b = Inr c'"
      and fs': "fs' = Dir (AList.update x c' es)"
      by (auto split: sum.splits)
    from "4.IH" [OF Some c'] have "\<And>r. kind_at c' r = (if r = p then Some (KFile b) else kind_at c r)" .
    with Some fs' show ?thesis
      by (cases q) (auto split: option.splits)
  qed
next
  case (1 old b)
  then show ?case by (cases q) auto
qed auto

lemma writeFile_Inr_not_dir:
  "writeFile fs p b = Inr fs' \<Longrightarrow> kind_at fs p \<noteq> Some KDir"
  by (induction fs p b arbitrary: fs' rule: writeFile.induct) (auto split: option.splits sum.splits if_splits)


lemma copyFileSync_kind:
  assumes "copyFileSync fs a b = Inr fs'"
  shows "\<exists>c. kind_at fs a = Some (KFile c) \<and> (\<forall>q. kind_at fs' q = (if q = b then Some (KFile c) else kind_at fs q))"
proof -
  from assms obtain c where "walk fs a = Inr (File c)" and "writeFile fs b c = Inr fs'"
    by (auto simp: copyFileSync_def split: sum.splits node.splits)
  then show ?thesis
    by (auto simp: kind_at_def writeFile_kind [unfolded kind_at_def])
qed

lemma copyFileSync_Inr_not_dir:
  "copyFileSync fs a b = Inr fs' \<Longrightarrow> kind_at fs b \<noteq> Some KDir"
  by (auto simp: copyFileSync_def split: sum.splits node.splits dest: writeFile_Inr_not_dir)


section \<open>The loop and the first statement\<close>

text \<open>
  The unfolding of \<open>copyRecursive\<close> into its fragments, and rules for the loop.
\<close>

lemma copyRecursive_Suc:
  "copyRecursive ord (Suc n) src dest fs =
     (case ensureDir fs dest of
        Inl e \<Rightarrow> Some (Inl e, fs)
      | Inr fs1 \<Rightarrow>
          (case readdirSync ord fs1 src of
             Inl e \<Rightarrow> Some (Inl e, fs1)
           | Inr files \<Rightarrow> forEach (copyEntry ord n src dest) files fs1))"
  unfolding copyEntry_def [abs_def] ensureDir_def by simp

lemma forEach_invariant:
  assumes "forEach body xs fs = Some (res, fs')" and "I fs"
    and "\<And>x t r t'. x \<in> set xs \<Longrightarrow> I t \<Longrightarrow> body x t = Some (r, t') \<Longrightarrow> I t'"
  shows "I fs'"
  using assms
proof (induction xs arbitrary: fs)
  case Nil
  then show ?case by simp
next
  case (Cons x xs)
  from Cons.prems(1) obtain r t where b: "body x fs = Some (r, t)"
    by (cases "body x fs") (auto split: prod.splits)
  from Cons.prems(3) [of x fs r t] Cons.prems(2) b have t: "I t" by simp
  show ?case
  proof (cases r)
    case (Inl e)
    with b Cons.prems(1) t show ?thesis by simp
  next
    case (Inr u)
    with b Cons.prems(1) have "forEach body xs t = Some (res, fs')" by simp
    moreover have "I t'" if "y \<in> set xs" "I t" "body y t = Some (r, t')" for y t r t'
      using Cons.prems(3) [of y t r t'] that by simp
    ultimately show ?thesis
      using Cons.IH t by blast
  qed
qed

lemma forEach_append:
  "forEach body (xs @ ys) fs =
     (case forEach body xs fs of
        None \<Rightarrow> None
      | Some (Inl e, fs') \<Rightarrow> Some (Inl e, fs')
      | Some (Inr u, fs') \<Rightarrow> forEach body ys fs')"
  by (induction xs arbitrary: fs) (auto split: option.splits sum.splits prod.splits)


lemma grows_refl: "grows K K"
  by (simp add: grows_def)

lemma grows_trans: "grows K K1 \<Longrightarrow> grows K1 K2 \<Longrightarrow> grows K K2"
  unfolding grows_def by blast

lemma touches_only_refl: "touches_only d K K"
  by (simp add: touches_only_def)

lemma touches_only_child:
  assumes "touches_only d K K1" "touches_only (d @ [x]) K1 K2"
  shows "touches_only d K K2"
  unfolding touches_only_def
proof (intro allI impI)
  fix q assume q: "\<not> prefix d q"
  then have nq: "\<not> prefix (d @ [x]) q"
    using append_prefixD by blast
  from assms(1) q have 1: "K1 q = K q \<or> (strict_prefix q d \<and> K q = None \<and> K1 q = Some KDir)"
    by (simp add: touches_only_def)
  from assms(2) nq have 2: "K2 q = K1 q \<or> (strict_prefix q (d @ [x]) \<and> K1 q = None \<and> K2 q = Some KDir)"
    by (simp add: touches_only_def)
  have "strict_prefix q (d @ [x]) \<Longrightarrow> strict_prefix q d"
    using q by (auto simp: strict_prefix_def)
  with 1 2 show "K2 q = K q \<or> (strict_prefix q d \<and> K q = None \<and> K2 q = Some KDir)"
    by auto
qed

lemma ensureDir_Inr:
  assumes "ensureDir fs d = Inr fs1"
  shows "kind_at fs1 d \<noteq> None"
    and "\<And>q. kind_at fs1 q = (if kind_at fs d = None \<and> prefix q d then Some KDir else kind_at fs q)"
    and "\<And>q b. strict_prefix q d \<Longrightarrow> kind_at fs q \<noteq> Some (KFile b)"
proof -
  show k: "\<And>q. kind_at fs1 q = (if kind_at fs d = None \<and> prefix q d then Some KDir else kind_at fs q)"
    using assms by (auto simp: ensureDir_def existsSync_kind mkdirSync_kind split: if_splits)
  show "kind_at fs1 d \<noteq> None"
    by (simp add: k)
  show "kind_at fs q \<noteq> Some (KFile b)" if "strict_prefix q d" for q b
  proof (cases "kind_at fs d = None")
    case True
    with assms have "mkdirSync fs d = Inr fs1"
      by (simp add: ensureDir_def existsSync_kind)
    from mkdirSync_Inr_no_file [OF this] that show ?thesis
      by (simp add: strict_prefix_def)
  next
    case False
    from kind_at_prefix [OF this that] show ?thesis by simp
  qed
qed

lemma mkdirSync_empty_ok: "mkdirSync (Dir []) p \<noteq> Inl e"
  by (induction p) (auto split: sum.splits)

lemma mkdirSync_absent_error:
  "mkdirSync fs p = Inl e \<Longrightarrow> kind_at fs p = None \<Longrightarrow> e = ENOTDIR"
  by (induction fs p arbitrary: e rule: mkdirSync.induct)
     (auto split: option.splits sum.splits simp: mkdirSync_empty_ok)

lemma ensureDir_Inl:
  assumes "ensureDir fs d = Inl e"
  shows "kind_at fs d = None" and "\<exists>q b. strict_prefix q d \<and> kind_at fs q = Some (KFile b)"
    and "e = ENOTDIR"
proof -
  from assms have n: "kind_at fs d = None" and m: "mkdirSync fs d = Inl e"
    by (auto simp: ensureDir_def existsSync_kind split: if_splits)
  show "kind_at fs d = None" by (rule n)
  from mkdirSync_Inl [OF m] n show "\<exists>q b. strict_prefix q d \<and> kind_at fs q = Some (KFile b)"
    by (auto simp: strict_prefix_def) 
  from mkdirSync_absent_error [OF m n] show "e = ENOTDIR" .
qed

declare copyRecursive.simps(2) [simp del]

section \<open>What every run preserves\<close>

text \<open>
  For every source and destination, overlapping or not, and every outcome: nothing is
  removed, and outside the destination only missing ancestors of it are created.
\<close>

lemma ensureDir_grows:
  assumes "ensureDir fs d = Inr fs1"
  shows "grows (kind_at fs) (kind_at fs1)" and "touches_only d (kind_at fs) (kind_at fs1)"
proof -
  note k = ensureDir_Inr(2) [OF assms] and nf = ensureDir_Inr(3) [OF assms]
  show "grows (kind_at fs) (kind_at fs1)"
    unfolding grows_def
  proof (intro allI conjI impI)
    fix q assume "kind_at fs q = Some KDir"
    then show "kind_at fs1 q = Some KDir" by (simp add: k)
  next
    fix q b assume f: "kind_at fs q = Some (KFile b)"
    show "\<exists>b'. kind_at fs1 q = Some (KFile b')"
    proof (cases "kind_at fs d = None \<and> prefix q d")
      case True
      with f have "strict_prefix q d" by (auto simp: strict_prefix_def)
      from nf [OF this, of b] f show ?thesis by simp
    next
      case False
      with f show ?thesis by (simp add: k)
    qed
  qed
  show "touches_only d (kind_at fs) (kind_at fs1)"
    unfolding touches_only_def
  proof (intro allI impI)
    fix q assume "\<not> prefix d q"
    then have "prefix q d \<Longrightarrow> strict_prefix q d" by (auto simp: strict_prefix_def)
    moreover have "prefix q d \<Longrightarrow> kind_at fs d = None \<Longrightarrow> kind_at fs q \<noteq> None \<Longrightarrow> kind_at fs q = Some KDir"
      using calculation nf by (cases "kind_at fs q") (auto, case_tac a, auto)
    ultimately show "kind_at fs1 q = kind_at fs q \<or>
        (strict_prefix q d \<and> kind_at fs q = None \<and> kind_at fs1 q = Some KDir)"
      by (auto simp: k)
  qed
qed

lemma copyFileSync_grows:
  assumes "copyFileSync fs a (d @ [x]) = Inr fs'"
  shows "grows (kind_at fs) (kind_at fs')" and "touches_only (d @ [x]) (kind_at fs) (kind_at fs')"
proof -
  from copyFileSync_kind [OF assms] obtain c where
    k: "\<And>q. kind_at fs' q = (if q = d @ [x] then Some (KFile c) else kind_at fs q)"
    by blast
  from copyFileSync_Inr_not_dir [OF assms] have nd: "kind_at fs (d @ [x]) \<noteq> Some KDir" .
  show "grows (kind_at fs) (kind_at fs')"
    unfolding grows_def using nd by (auto simp: k)
  show "touches_only (d @ [x]) (kind_at fs) (kind_at fs')"
    unfolding touches_only_def by (auto simp: k)
qed

text \<open>One entry, given the property for the recursive calls.\<close>

lemma copyEntry_cases:
  assumes "copyEntry ord n s d x t = Some (r, t')"
  obtains
    (stat_failed) e where "statSync t (s @ [x]) = Inl e" "r = Inl e" "t' = t"
  | (directory) "kind_at t (s @ [x]) = Some KDir"
      "copyRecursive ord n (s @ [x]) (d @ [x]) t = Some (r, t')"
  | (copy_failed) b e where "kind_at t (s @ [x]) = Some (KFile b)"
      "copyFileSync t (s @ [x]) (d @ [x]) = Inl e" "r = Inl e" "t' = t"
  | (copied) b where "kind_at t (s @ [x]) = Some (KFile b)"
      "copyFileSync t (s @ [x]) (d @ [x]) = Inr t'" "r = Inr ()"
proof (cases "statSync t (s @ [x])")
  case (Inl e)
  with assms have "r = Inl e" "t' = t"
    by (simp_all add: copyEntry_def path_join_def)
  with Inl show ?thesis by (rule stat_failed)
next
  case (Inr st)
  note st = statSync_Inr [OF Inr]
  show ?thesis
  proof (cases "isDirectory st")
    case True
    with Inr assms have "copyRecursive ord n (s @ [x]) (d @ [x]) t = Some (r, t')"
      by (simp add: copyEntry_def path_join_def)
    with True st show ?thesis by (intro directory) simp_all
  next
    case False
    with st obtain b where b: "kind_at t (s @ [x]) = Some (KFile b)"
      by (cases "kind_at t (s @ [x])") (auto, case_tac a, auto)
    show ?thesis
    proof (cases "copyFileSync t (s @ [x]) (d @ [x])")
      case (Inl e)
      with False Inr assms have "r = Inl e" "t' = t"
        by (simp_all add: copyEntry_def path_join_def)
      with b Inl show ?thesis by (intro copy_failed)
    next
      case c: (Inr t'')
      with False Inr assms have "r = Inr ()" "t'' = t'"
        by (simp_all add: copyEntry_def path_join_def)
      with b c show ?thesis by (intro copied) simp_all
    qed
  qed
qed

theorem copyRecursive_grows:
  "copyRecursive ord n s d fs = Some (res, fs') \<Longrightarrow>
     grows (kind_at fs) (kind_at fs') \<and> touches_only d (kind_at fs) (kind_at fs')"
proof (induction n arbitrary: s d fs res fs')
  case 0
  then show ?case by simp
next
  case (Suc n)
  let ?I = "\<lambda>t. grows (kind_at fs) (kind_at t) \<and> touches_only d (kind_at fs) (kind_at t)"
  show ?case
  proof (cases "ensureDir fs d")
    case (Inl e)
    with Suc.prems show ?thesis
      by (simp add: copyRecursive_Suc grows_refl touches_only_refl)
  next
    case (Inr fs1)
    from ensureDir_grows [OF Inr] have I1: "?I fs1" by simp
    show ?thesis
    proof (cases "readdirSync ord fs1 s")
      case (Inl e)
      with Inr Suc.prems I1 show ?thesis
        by (simp add: copyRecursive_Suc)
    next
      case files: (Inr files)
      with Inr Suc.prems have loop: "forEach (copyEntry ord n s d) files fs1 = Some (res, fs')"
        by (simp add: copyRecursive_Suc)
      show ?thesis
      proof (rule forEach_invariant [OF loop, of ?I, OF I1])
        fix x t r t'
        assume I: "?I t" and step: "copyEntry ord n s d x t = Some (r, t')"
        from step have "grows (kind_at t) (kind_at t') \<and> touches_only (d @ [x]) (kind_at t) (kind_at t')"
        proof (cases rule: copyEntry_cases)
          case (directory)
          from Suc.IH [OF directory(2)] show ?thesis .
        next
          case (copied b)
          from copyFileSync_grows [OF copied(2)] show ?thesis by simp
        qed (simp_all add: grows_refl touches_only_refl)
        with I show "?I t'"
          using grows_trans touches_only_child by blast
      qed
    qed
  qed
qed

section \<open>Runs whose source and destination do not overlap\<close>









lemma copyEntry_grows:
  assumes "copyEntry ord n s d x t = Some (r, t')"
  shows "grows (kind_at t) (kind_at t')" and "touches_only (d @ [x]) (kind_at t) (kind_at t')"
  using assms
proof (atomize (full), cases rule: copyEntry_cases)
  case (directory)
  from copyRecursive_grows [OF directory(2)] show "grows (kind_at t) (kind_at t') \<and> touches_only (d @ [x]) (kind_at t) (kind_at t')" .
next
  case (copied b)
  from copyFileSync_grows [OF copied(2)] show "grows (kind_at t) (kind_at t') \<and> touches_only (d @ [x]) (kind_at t) (kind_at t')" by simp
qed (simp_all add: grows_refl touches_only_refl)

lemma loop_grows:
  assumes "forEach (copyEntry ord n s d) xs t = Some (r, t')"
  shows "grows (kind_at t) (kind_at t')"
  by (rule forEach_invariant [OF assms, of "\<lambda>u. grows (kind_at t) (kind_at u)"])
     (auto intro: grows_refl grows_trans copyEntry_grows(1))







section \<open>A destination inside the source\<close>




section \<open>When a run succeeds\<close>


lemma growsD:
  assumes "grows K K'"
  shows "K q = Some KDir \<Longrightarrow> K' q = Some KDir"
    and "K q = Some (KFile b) \<Longrightarrow> \<exists>b'. K' q = Some (KFile b')"
  using assms by (auto simp: grows_def)










section \<open>The filesystem after a successful run\<close>







lemma entry_point_result:
  "entry_point ord n dirname cwd argv fs =
     (case copyRecursive ord n (dirname @ [''template'']) (resolve cwd (targetDir argv)) fs of
        None \<Rightarrow> None
      | Some (Inl e, fs') \<Rightarrow> Some (Inl e, fs')
      | Some (Inr u, fs') \<Rightarrow> Some (Inr success_message, fs'))"
  by (simp add: entry_point_def path_join_def)

section \<open>Runs that return\<close>






section \<open>A tree copied onto itself\<close>











section \<open>Structural fidelity\<close>



section \<open>Creation of a destination that does not exist\<close>

text \<open>
  Where a regular file lies above the destination, \<open>mkdirSync\<close> throws and nothing is
  created: with \<open>home/a\<close> a file, the copy to \<open>home/a/b\<close> ends with \<open>ENOTDIR\<close> and the
  filesystem as it was.
\<close>

theorem destination_below_a_file:
  "kind_at blocked_fs [''home'', ''a'', ''b''] = None \<and>
   copyRecursive any_order 1 [''pkg'', ''template''] [''home'', ''a'', ''b''] blocked_fs =
     Some (Inl ENOTDIR, blocked_fs)"
  by code_simp

text \<open>
  C2 (amended). If the destination does not exist and no ancestor of it is a regular
  file, \<open>mkdirSync\<close> succeeds; in the filesystem it returns, the destination and all its
  ancestors are directories and every other path is as before; the entries are read and
  copied in that filesystem, so after the directories were created; and whatever the
  outcome of the run, the destination and all its ancestors are directories afterwards.
\<close>

theorem destination_created:
  assumes absent: "kind_at fs d = None"
    and clear: "\<forall>q b. strict_prefix q d \<longrightarrow> kind_at fs q \<noteq> Some (KFile b)"
  shows "\<exists>fs1. mkdirSync fs d = Inr fs1 \<and>
           (\<forall>q. kind_at fs1 q = (if prefix q d then Some KDir else kind_at fs q)) \<and>
           copyRecursive ord (Suc n) s d fs =
             (case readdirSync ord fs1 s of
                Inl e \<Rightarrow> Some (Inl e, fs1)
              | Inr files \<Rightarrow> forEach (copyEntry ord n s d) files fs1) \<and>
           (\<forall>res fs'. copyRecursive ord (Suc n) s d fs = Some (res, fs') \<longrightarrow>
              (\<forall>q. prefix q d \<longrightarrow> kind_at fs' q = Some KDir))"
proof -
  obtain fs1 where mk: "mkdirSync fs d = Inr fs1"
  proof (cases "mkdirSync fs d")
    case (Inl e)
    from mkdirSync_Inl [OF this] absent clear show ?thesis
      by (auto simp: strict_prefix_def)
  qed
  note k = mkdirSync_kind [OF mk]
  from mk absent have ens: "ensureDir fs d = Inr fs1"
    by (simp add: ensureDir_def existsSync_kind)
  then have unfold: "copyRecursive ord (Suc n) s d fs =
      (case readdirSync ord fs1 s of
         Inl e \<Rightarrow> Some (Inl e, fs1)
       | Inr files \<Rightarrow> forEach (copyEntry ord n s d) files fs1)"
    by (simp add: copyRecursive_Suc)
  have "kind_at fs' q = Some KDir"
    if run: "copyRecursive ord (Suc n) s d fs = Some (res, fs')" and q: "prefix q d" for res fs' q
  proof -
    have "grows (kind_at fs1) (kind_at fs')"
    proof (cases "readdirSync ord fs1 s")
      case (Inl e)
      with run unfold show ?thesis by (simp add: grows_refl)
    next
      case (Inr files)
      with run unfold have "forEach (copyEntry ord n s d) files fs1 = Some (res, fs')" by simp
      then show ?thesis by (rule loop_grows)
    qed
    moreover from q have "kind_at fs1 q = Some KDir" by (simp add: k)
    ultimately show ?thesis by (rule growsD(1))
  qed
  with mk k unfold show ?thesis by blast
qed

theorem destination_created_witness:
  "kind_at demo_fs [''home'', ''a''] = None \<and>
   kind_at demo_fs [''home'', ''a'', ''b''] = None \<and>
   kind_at demo_fs [''home'', ''a'', ''b'', ''c''] = None \<and>
   copyRecursive any_order (Suc 1) [''pkg'', ''template''] [''home'', ''a'', ''b'', ''c''] demo_fs =
     Some (Inr (), abc_after) \<and>
   kind_at abc_after [''home'', ''a''] = Some KDir \<and>
   kind_at abc_after [''home'', ''a'', ''b''] = Some KDir \<and>
   kind_at abc_after [''home'', ''a'', ''b'', ''c''] = Some KDir"
proof -
  have h0: "kind_at demo_fs [''home'', ''a''] = None" "kind_at demo_fs [''home'', ''a'', ''b''] = None"
    by (simp_all add: demo_fs_def)
  have h1: "kind_at demo_fs [''home'', ''a'', ''b'', ''c''] = None"
    by (simp add: demo_fs_def)
  have h2: "\<forall>q b. strict_prefix q [''home'', ''a'', ''b'', ''c''] \<longrightarrow> kind_at demo_fs q \<noteq> Some (KFile b)"
    by (auto simp: strict_prefix_def prefix_Cons demo_fs_def)
  have h3: "copyRecursive any_order (Suc 1) [''pkg'', ''template''] [''home'', ''a'', ''b'', ''c''] demo_fs =
     Some (Inr (), abc_after)"
    by code_simp
  from destination_created [OF h1 h2, of any_order 1 "[''pkg'', ''template'']"] h3
  have t: "\<forall>q. prefix q [''home'', ''a'', ''b'', ''c''] \<longrightarrow> kind_at abc_after q = Some KDir"
    by blast
  have p1: "prefix [''home'', ''a''] [''home'', ''a'', ''b'', ''c'']"
    and p2: "prefix [''home'', ''a'', ''b''] [''home'', ''a'', ''b'', ''c'']"
    and p3: "prefix [''home'', ''a'', ''b'', ''c''] [''home'', ''a'', ''b'', ''c'']"
    by simp_all
  note t1 = t [rule_format, OF p1] and t2 = t [rule_format, OF p2] and t3 = t [rule_format, OF p3]
  show ?thesis
    by (intro conjI h0 h1 h3 t1 t2 t3)
qed

section \<open>The default destination\<close>

lemma resolve_dot: "resolve cwd ''.'' = cwd"
  by (simp add: resolve_def enter_def)

text \<open>
  C3. Invoked with no positional argument (\<open>process.argv\<close> holds the interpreter and the
  script only), the destination string is \<open>"."\<close>, it resolves to the working directory,
  and the template is copied there.
\<close>

theorem default_destination:
  "length argv \<le> 2 \<Longrightarrow>
     targetDir argv = ''.'' \<and>
     resolve cwd (targetDir argv) = cwd \<and>
     entry_point ord n dirname cwd argv fs =
       (case copyRecursive ord n (dirname @ [''template'']) cwd fs of
          None \<Rightarrow> None
        | Some (Inl e, fs') \<Rightarrow> Some (Inl e, fs')
        | Some (Inr u, fs') \<Rightarrow> Some (Inr success_message, fs'))"
  by (simp add: targetDir_def resolve_dot entry_point_def path_join_def)

theorem default_destination_witness:
  "length [''node'', ''index.js''] \<le> 2 \<and>
   targetDir [''node'', ''index.js''] = ''.'' \<and>
   resolve [''home'', ''me''] (targetDir [''node'', ''index.js'']) = [''home'', ''me'']"
proof -
  have h: "length [''node'', ''index.js''] \<le> 2"
    by simp
  from h default_destination [OF h, where cwd = "[''home'', ''me'']"
      and ord = "\<lambda>p x. 0" and n = 0 and dirname = "[]" and fs = "Dir []"]
  show ?thesis
    by blast
qed

section \<open>Running the tool twice\<close>




section \<open>Overwriting\<close>




section \<open>Errors\<close>

lemma readdirSync_error:
  "readdirSync ord fs p = Inl e \<Longrightarrow> e = ENOENT \<or> e = ENOTDIR"
proof -
  have "walk fs p = Inl e \<Longrightarrow> e = ENOENT \<or> e = ENOTDIR" for fs p
    by (induction fs p rule: walk.induct) (auto split: option.splits)
  then show "readdirSync ord fs p = Inl e \<Longrightarrow> e = ENOENT \<or> e = ENOTDIR"
    by (auto simp: readdirSync_def split: sum.splits node.splits)
qed


text \<open>
  C6. No failure is caught or retried, and nothing is rolled back. The result of each
  part of the program that follows a failing call is that failure, with the filesystem
  as it was when it happened:
  \<^item> when the entry \<open>file\<close> fails after the entries \<open>ys\<close> were copied, \<open>copyRecursive\<close>
    returns the error of \<open>file\<close> and the filesystem \<open>t'\<close> that \<open>file\<close> left, whatever the
    remaining entries \<open>zs\<close> are; outside the destination of \<open>file\<close> every path shows in
    \<open>t'\<close> what it showed when the earlier entries had been copied, and no path that
    existed then is missing;
  \<^item> a failure to create the destination directory and a failure to read the source
    directory are the result of \<open>copyRecursive\<close>;
  \<^item> a failure of \<open>statSync\<close>, of the recursive call for a sub-directory, or of
    \<open>copyFileSync\<close> is the result for the entry;
  \<^item> a failure of the outermost \<open>copyRecursive\<close> is the result of the entry point, which
    prints no success line.
\<close>

theorem error_propagation:
  "(ensureDir fs d = Inr fs1 \<and> readdirSync ord fs1 s = Inr (ys @ file # zs) \<and>
    forEach (copyEntry ord n s d) ys fs1 = Some (Inr (), t) \<and>
    copyEntry ord n s d file t = Some (Inl e, t') \<longrightarrow>
      copyRecursive ord (Suc n) s d fs = Some (Inl e, t') \<and>
      (\<forall>q. \<not> prefix (d @ [file]) q \<longrightarrow> kind_at t' q = kind_at t q) \<and>
      (\<forall>q. kind_at t q \<noteq> None \<longrightarrow> kind_at t' q \<noteq> None)) \<and>
   (ensureDir fs d = Inl e \<longrightarrow> copyRecursive ord (Suc n) s d fs = Some (Inl e, fs)) \<and>
   (ensureDir fs d = Inr fs1 \<and> readdirSync ord fs1 s = Inl e \<longrightarrow>
      copyRecursive ord (Suc n) s d fs = Some (Inl e, fs1)) \<and>
   (statSync t (s @ [file]) = Inl e \<longrightarrow> copyEntry ord n s d file t = Some (Inl e, t)) \<and>
   (statSync t (s @ [file]) = Inr (Stats True) \<and>
    copyRecursive ord n (s @ [file]) (d @ [file]) t = Some (Inl e, t') \<longrightarrow>
      copyEntry ord n s d file t = Some (Inl e, t')) \<and>
   (statSync t (s @ [file]) = Inr (Stats False) \<and>
    copyFileSync t (s @ [file]) (d @ [file]) = Inl e \<longrightarrow>
      copyEntry ord n s d file t = Some (Inl e, t)) \<and>
   (copyRecursive ord n (dirname @ [''template'']) (resolve cwd (targetDir argv)) fs =
      Some (Inl e, t') \<longrightarrow>
      entry_point ord n dirname cwd argv fs = Some (Inl e, t'))"
proof (intro conjI impI; (elim conjE)?)
  assume ens: "ensureDir fs d = Inr fs1"
    and files: "readdirSync ord fs1 s = Inr (ys @ file # zs)"
    and before: "forEach (copyEntry ord n s d) ys fs1 = Some (Inr (), t)"
    and failed: "copyEntry ord n s d file t = Some (Inl e, t')"
  from before failed have "forEach (copyEntry ord n s d) (ys @ file # zs) fs1 = Some (Inl e, t')"
    by (simp add: forEach_append)
  with ens files show "copyRecursive ord (Suc n) s d fs = Some (Inl e, t')"
    by (simp add: copyRecursive_Suc)
  have dt: "kind_at t d \<noteq> None"
  proof -
    from ensureDir_Inr(1) [OF ens] obtain k where k: "kind_at fs1 d = Some k" by auto
    from growsD [OF loop_grows [OF before], of d] k show ?thesis
      by (cases k) auto
  qed
  note g = copyEntry_grows [OF failed]
  show "\<forall>q. \<not> prefix (d @ [file]) q \<longrightarrow> kind_at t' q = kind_at t q"
  proof (intro allI impI)
    fix q assume q: "\<not> prefix (d @ [file]) q"
    with g(2) have "kind_at t' q = kind_at t q \<or>
        (strict_prefix q (d @ [file]) \<and> kind_at t q = None \<and> kind_at t' q = Some KDir)"
      by (simp add: touches_only_def)
    moreover have "kind_at t q \<noteq> None" if "strict_prefix q (d @ [file])"
    proof (cases "q = d")
      case True
      with dt show ?thesis by simp
    next
      case False
      with that have "strict_prefix q d" by (auto simp: strict_prefix_def)
      from kind_at_prefix [OF dt this] show ?thesis by simp
    qed
    ultimately show "kind_at t' q = kind_at t q" by blast
  qed
  show "\<forall>q. kind_at t q \<noteq> None \<longrightarrow> kind_at t' q \<noteq> None"
  proof (intro allI impI)
    fix q assume "kind_at t q \<noteq> None"
    then obtain k where k: "kind_at t q = Some k" by auto
    from growsD [OF g(1), of q] k show "kind_at t' q \<noteq> None" by (cases k) auto
  qed
qed (simp_all add: copyRecursive_Suc copyEntry_def path_join_def entry_point_result)

theorem error_propagation_witness:
  "ensureDir clash_fs [''home''] = Inr clash_fs \<and>
   readdirSync notes_first clash_fs [''pkg'', ''template''] = Inr ([''notes''] @ ''src'' # []) \<and>
   forEach (copyEntry notes_first 1 [''pkg'', ''template''] [''home'']) [''notes''] clash_fs =
     Some (Inr (), clash_after) \<and>
   copyEntry notes_first 1 [''pkg'', ''template''] [''home''] ''src'' clash_after =
     Some (Inl ENOTDIR, clash_after) \<and>
   copyRecursive notes_first (Suc 1) [''pkg'', ''template''] [''home''] clash_fs =
     Some (Inl ENOTDIR, clash_after) \<and>
   kind_at clash_after [''home'', ''notes''] = Some (KFile ''hi'')"
proof -
  have h1: "ensureDir clash_fs [''home''] = Inr clash_fs"
    by code_simp
  have h2: "readdirSync notes_first clash_fs [''pkg'', ''template''] = Inr ([''notes''] @ ''src'' # [])"
    by code_simp
  have h3: "forEach (copyEntry notes_first 1 [''pkg'', ''template''] [''home'']) [''notes''] clash_fs =
     Some (Inr (), clash_after)"
    by code_simp
  have h4: "copyEntry notes_first 1 [''pkg'', ''template''] [''home''] ''src'' clash_after =
     Some (Inl ENOTDIR, clash_after)"
    by code_simp
  from h1 h2 h3 h4
    error_propagation [where fs = clash_fs and d = "[''home'']" and ?fs1.0 = clash_fs
      and ord = notes_first and s = "[''pkg'', ''template'']" and ys = "[''notes'']"
      and ?file = "''src''" and zs = "[]" and n = 1 and t = clash_after and e = ENOTDIR
      and t' = clash_after]
  have t: "copyRecursive notes_first (Suc 1) [''pkg'', ''template''] [''home''] clash_fs =
     Some (Inl ENOTDIR, clash_after)"
    by blast
  have kept: "kind_at clash_after [''home'', ''notes''] = Some (KFile ''hi'')"
    by (simp add: clash_after_def)
  show ?thesis
    by (intro conjI h1 h2 h3 h4 t kept)
qed

section \<open>A missing source\<close>




section \<open>Order of enumeration\<close>




section \<open>The source tree is not written\<close>




section \<open>The destination of a run without source\<close>

text \<open>
  Without a source, the run need not fail after having created the destination. Where a
  regular file lies above the destination, it fails in \<open>mkdirSync\<close> and the destination
  is not created; and copied onto its own path, the missing source is created as an
  empty directory and the run succeeds.
\<close>

theorem missing_source_other_outcomes:
  "kind_at blocked_fs [''pkg'', ''nothing''] = None \<and>
   copyRecursive any_order 1 [''pkg'', ''nothing''] [''home'', ''a'', ''b''] blocked_fs =
     Some (Inl ENOTDIR, blocked_fs) \<and>
   kind_at blocked_fs [''home'', ''a'', ''b''] = None \<and>
   kind_at bare_fs [''pkg'', ''template''] = None \<and>
   copyRecursive any_order 1 [''pkg'', ''template''] [''pkg'', ''template''] bare_fs =
     Some (Inr (), Dir [(''pkg'', Dir [(''template'', Dir [])]), (''home'', Dir [])])"
  by code_simp

text \<open>
  C10 (amended). If the source does not exist, the destination is neither the source
  path nor inside it, and no regular file lies at or above the destination, then the
  first statement succeeds, reading the source directory fails in the filesystem it
  returns, and that failure and that filesystem are the result of the run: the
  destination and all its ancestors are directories, every other path is as before,
  and a destination that did not exist before is empty.
\<close>

theorem destination_left_behind:
  assumes "kind_at fs s = None"
    and "\<not> prefix s d"
    and "\<forall>q b. prefix q d \<longrightarrow> kind_at fs q \<noteq> Some (KFile b)"
  shows "\<exists>fs1 e. ensureDir fs d = Inr fs1 \<and> readdirSync ord fs1 s = Inl e \<and>
           (e = ENOENT \<or> e = ENOTDIR) \<and>
           copyRecursive ord (Suc n) s d fs = Some (Inl e, fs1) \<and>
           (\<forall>q. kind_at fs1 q = (if prefix q d then Some KDir else kind_at fs q)) \<and>
           (kind_at fs d = None \<longrightarrow> (\<forall>x. kind_at fs1 (d @ [x]) = None))"
proof -
  obtain fs1 where ens: "ensureDir fs d = Inr fs1"
  proof (cases "ensureDir fs d")
    case (Inl e)
    from ensureDir_Inl(2) [OF this] assms(3) show ?thesis
      by (auto simp: strict_prefix_def)
  qed
  note k = ensureDir_Inr(2) [OF ens]
  from assms(1,2) have "kind_at fs1 s \<noteq> Some KDir"
    by (simp add: k)
  with readdirSync_Inr(1) [of ord fs1 s] obtain e where e: "readdirSync ord fs1 s = Inl e"
    by (cases "readdirSync ord fs1 s") auto
  with ens have run: "copyRecursive ord (Suc n) s d fs = Some (Inl e, fs1)"
    by (simp add: copyRecursive_Suc)
  have view: "kind_at fs1 q = (if prefix q d then Some KDir else kind_at fs q)" for q
  proof (cases "prefix q d")
    case True
    have "kind_at fs1 q \<noteq> None"
    proof (cases "q = d")
      case True
      with ensureDir_Inr(1) [OF ens] show ?thesis by simp
    next
      case False
      with True have "strict_prefix q d" by (simp add: strict_prefix_def)
      from kind_at_prefix [OF ensureDir_Inr(1) [OF ens] this] show ?thesis by simp
    qed
    then obtain c where c: "kind_at fs1 q = Some c" by auto
    have "c = KDir"
    proof (cases c)
      case (KFile b)
      with c k [of q] have "kind_at fs q = Some (KFile b)"
        by (simp split: if_splits)
      with assms(3) True show ?thesis by blast
    qed
    with c True show ?thesis by simp
  next
    case False
    then show ?thesis by (simp add: k)
  qed
  have "kind_at fs1 (d @ [x]) = None" if "kind_at fs d = None" for x
  proof -
    have "kind_at fs (d @ [x]) = None"
    proof (rule ccontr)
      assume "kind_at fs (d @ [x]) \<noteq> None"
      from kind_at_parent [OF this] that show False by simp
    qed
    then show ?thesis by (simp add: view)
  qed
  with ens e readdirSync_error [OF e] run view show ?thesis by blast
qed

theorem destination_left_behind_witness:
  "kind_at bare_fs [''pkg'', ''template''] = None \<and>
   \<not> prefix [''pkg'', ''template''] [''home'', ''out''] \<and>
   kind_at bare_fs [''home'', ''out''] = None \<and>
   (\<exists>fs1 e. ensureDir bare_fs [''home'', ''out''] = Inr fs1 \<and>
           readdirSync any_order fs1 [''pkg'', ''template''] = Inl e \<and>
           copyRecursive any_order (Suc 0) [''pkg'', ''template''] [''home'', ''out''] bare_fs =
             Some (Inl e, fs1) \<and>
           (\<forall>q. kind_at fs1 q =
                (if prefix q [''home'', ''out''] then Some KDir else kind_at bare_fs q)) \<and>
           (\<forall>x. kind_at fs1 ([''home'', ''out''] @ [x]) = None))"
proof -
  have h1: "kind_at bare_fs [''pkg'', ''template''] = None"
    by (simp add: bare_fs_def)
  have h2: "\<not> prefix [''pkg'', ''template''] [''home'', ''out'']"
    by simp
  have h3: "\<forall>q b. prefix q [''home'', ''out''] \<longrightarrow> kind_at bare_fs q \<noteq> Some (KFile b)"
    by (auto simp: prefix_Cons bare_fs_def)
  have h4: "kind_at bare_fs [''home'', ''out''] = None"
    by (simp add: bare_fs_def)
  from destination_left_behind [OF h1 h2 h3, of any_order 0] h4
  have t: "\<exists>fs1 e. ensureDir bare_fs [''home'', ''out''] = Inr fs1 \<and>
           readdirSync any_order fs1 [''pkg'', ''template''] = Inl e \<and>
           copyRecursive any_order (Suc 0) [''pkg'', ''template''] [''home'', ''out''] bare_fs =
             Some (Inl e, fs1) \<and>
           (\<forall>q. kind_at fs1 q =
                (if prefix q [''home'', ''out''] then Some KDir else kind_at bare_fs q)) \<and>
           (\<forall>x. kind_at fs1 ([''home'', ''out''] @ [x]) = None)"
    by blast
  show ?thesis
    by (intro conjI h1 h2 h4 t)
qed

end
